theory Spec2Isabelle
  imports Main "HOL-Library.Sublist"
begin

section \<open>JavaScript values and the operators device.js applies to them\<close>

text \<open>
  The values that reach the device helper: the primitives, functions and plain objects.
  A function and an object are known by an identity only. Numbers are integers (no
  fraction, no NaN value); a plain object has no \<open>apply\<close> property of its own.
\<close>

datatype jsval =
    VUndefined
  | VNull
  | VBool bool
  | VNum int
  | VStr string
  | VFunc nat
  | VObj nat

text \<open>The \<open>typeof\<close> operator.\<close>

fun typeof :: "jsval \<Rightarrow> string" where
  "typeof VUndefined = ''undefined''"
| "typeof VNull = ''object''"
| "typeof (VBool b) = ''boolean''"
| "typeof (VNum n) = ''number''"
| "typeof (VStr s) = ''string''"
| "typeof (VFunc f) = ''function''"
| "typeof (VObj a) = ''object''"

text \<open>ToBoolean, and the operators \<open>!\<close> and \<open>||\<close> built on it.\<close>

fun truthy :: "jsval \<Rightarrow> bool" where
  "truthy VUndefined = False"
| "truthy VNull = False"
| "truthy (VBool b) = b"
| "truthy (VNum n) = (n \<noteq> 0)"
| "truthy (VStr s) = (s \<noteq> [])"
| "truthy (VFunc f) = True"
| "truthy (VObj a) = True"

definition js_not :: "jsval \<Rightarrow> jsval" where
  "js_not v = VBool (\<not> truthy v)"

definition js_or :: "jsval \<Rightarrow> jsval \<Rightarrow> jsval" where
  "js_or a b = (if truthy a then a else b)"

text \<open>
  Strict equality \<open>===\<close>: same type and same value; functions and objects by identity.
\<close>

definition strict_eq :: "jsval \<Rightarrow> jsval \<Rightarrow> bool" where
  "strict_eq a b = (a = b)"

text \<open>
  ToNumber on a string, \<open>None\<close> standing for NaN. The empty string is 0 and a string of
  decimal digits is its value. Every string holding a letter that is no part of a
  numeric literal is NaN, which covers the only string the program converts
  (\<open>'function'\<close>). Signs, fractions, exponents, hexadecimal literals and surrounding
  white space are not read.
\<close>

definition digit_of :: "char \<Rightarrow> nat option" where
  "digit_of c =
     (let code = (of_char c :: nat) in
      if 48 \<le> code \<and> code \<le> 57 then Some (code - 48) else None)"

fun digits_value :: "nat \<Rightarrow> string \<Rightarrow> nat option" where
  "digits_value acc [] = Some acc"
| "digits_value acc (c # cs) =
     (case digit_of c of None \<Rightarrow> None | Some d \<Rightarrow> digits_value (10 * acc + d) cs)"

definition str_to_number :: "string \<Rightarrow> int option" where
  "str_to_number s = map_option int (digits_value 0 s)"

text \<open>
  Abstract equality \<open>==\<close> (ECMAScript 5, 11.9.3), row by row: equal types compare as
  \<open>===\<close>; null and undefined equal each other; a number and a string compare after
  ToNumber of the string; a boolean operand is first turned into the number 0 or 1. An
  object or function against a primitive would go through ToPrimitive, which depends on
  the object's own methods: the program never compares one, and the answer here is
  \<open>False\<close>.
\<close>

definition bool_to_number :: "bool \<Rightarrow> int" where
  "bool_to_number b = (if b then 1 else 0)"

fun num_loose_eq :: "int \<Rightarrow> jsval \<Rightarrow> bool" where
  "num_loose_eq n (VNum m) = (n = m)"
| "num_loose_eq n (VStr s) = (str_to_number s = Some n)"
| "num_loose_eq n (VBool b) = (n = bool_to_number b)"
| "num_loose_eq n v = False"

fun loose_eq :: "jsval \<Rightarrow> jsval \<Rightarrow> bool" where
  "loose_eq VUndefined v = (v = VUndefined \<or> v = VNull)"
| "loose_eq VNull v = (v = VUndefined \<or> v = VNull)"
| "loose_eq (VBool a) (VBool b) = (a = b)"
| "loose_eq (VBool a) v = num_loose_eq (bool_to_number a) v"
| "loose_eq (VNum n) v = num_loose_eq n v"
| "loose_eq (VStr s) (VStr t) = (s = t)"
| "loose_eq (VStr s) (VNum m) = (str_to_number s = Some m)"
| "loose_eq (VStr s) (VBool b) = (str_to_number s = Some (bool_to_number b))"
| "loose_eq (VStr s) v = False"
| "loose_eq (VFunc f) v = (v = VFunc f)"
| "loose_eq (VObj a) v = (v = VObj a)"

section \<open>The state of one Device instance\<close>

text \<open>
  A listener entry, the object \<open>event\<close> built by \<open>addSizeChangeEvent\<close> and
  \<open>addOrientationChangeEvent\<close>.
\<close>

record event =
  func :: jsval
  args :: "jsval list"

text \<open>
  Callbacks are code of the application, outside the repository. Applying one is
  recorded, with the arguments it receives and the value of the closure variable
  \<open>size\<close> at that moment (what a \<open>getSize()\<close> made by the callback returns); the call
  then either returns or throws. A callback does not call back into the device.
\<close>

record invocation =
  callee :: jsval
  actuals :: "jsval list"
  size_seen :: jsval

text \<open>
  The exceptions: the TypeError of applying a value that is no function, and whatever a
  callback throws.
\<close>

datatype error = TypeError | Thrown

text \<open>
  The closure variables of \<open>Device\<close> (\<open>options.mq\<close>, \<open>size\<close>, the two listener arrays);
  the property \<open>size\<close> of the object \<open>device\<close> itself (the object literal defines none, so
  reading \<open>this.size\<close> gives undefined unless the application stores one); the number of
  handlers the instance has bound on \<open>window\<close> for each of the two host events;
  \<open>window.orientation\<close>; which invocations of the application's callbacks end in an
  exception; and the record of the invocations made.
\<close>

record state =
  mq_small :: string
  mq_medium :: string
  size_var :: jsval
  this_size :: jsval
  sizeChangeListeners :: "event list"
  orientationChangeListeners :: "event list"
  resize_handlers :: nat
  orientationchange_handlers :: nat
  window_orientation :: jsval
  cb_throws :: "invocation \<Rightarrow> bool"
  calls :: "invocation list"

text \<open>
  A method call or a handler run ends by returning a value or by an exception, and in
  both cases leaves a state behind: what was assigned before a throw stays assigned.
\<close>

type_synonym 'a result = "(error + 'a) \<times> state"

section \<open>The methods of device.js\<close>

text \<open>
  \<open>f.apply(this, args)\<close>: a function is invoked, and the invocation returns or throws;
  anything else has no callable \<open>apply\<close> and the expression throws a TypeError.
\<close>

definition apply_func :: "jsval \<Rightarrow> jsval list \<Rightarrow> state \<Rightarrow> unit result" where
  "apply_func f as s =
     (if typeof f = ''function''
      then (let i = \<lparr>callee = f, actuals = as, size_seen = size_var s\<rparr>;
                s1 = s\<lparr>calls := calls s @ [i]\<rparr>
            in if cb_throws s i then (Inl Thrown, s1) else (Inr (), s1))
      else (Inl TypeError, s))"

text \<open>The i-th actual argument of a call; a missing one reads as undefined.\<close>

definition arg :: "jsval list \<Rightarrow> nat \<Rightarrow> jsval" where
  "arg arguments i = (if i < length arguments then arguments ! i else VUndefined)"

text \<open>
  The loop \<open>$.each(Array.prototype.slice.call(arguments), function (i, arg) {...})\<close> of
  the two registration methods: index \<open>i\<close> runs from 0, the arguments at index 0 and 1
  are skipped and every later one is pushed onto \<open>event.args\<close>.
\<close>

fun push_args :: "nat \<Rightarrow> jsval list \<Rightarrow> jsval list \<Rightarrow> jsval list" where
  "push_args i [] acc = acc"
| "push_args i (a # as) acc = push_args (Suc i) as (if i < 2 then acc else acc @ [a])"

text \<open>
  \<open>addSizeChangeEvent(func, autoCall, ...)\<close>, called with the argument list
  \<open>arguments\<close>. The guard is \<open>!typeof func == 'function'\<close> as the source writes it: the
  negation applies to the string \<open>typeof func\<close>, and its boolean result is compared
  with \<open>'function'\<close>. The immediate call comes before the push, so an exception in it
  leaves the entry out.
\<close>

definition addSizeChangeEvent :: "jsval list \<Rightarrow> state \<Rightarrow> unit result" where
  "addSizeChangeEvent arguments s =
     (let func0 = arg arguments 0; autoCall0 = arg arguments 1 in
      if loose_eq (js_not (VStr (typeof func0))) (VStr ''function'') then (Inr (), s)
      else
        let autoCall = js_or autoCall0 (VBool False);
            ev = \<lparr>func = func0, args = push_args 0 arguments []\<rparr>
        in case (if strict_eq autoCall (VBool True) then apply_func (func ev) (args ev) s
                 else (Inr (), s)) of
             (Inl e, s1) \<Rightarrow> (Inl e, s1)
           | (Inr u, s1) \<Rightarrow> (Inr (), s1\<lparr>sizeChangeListeners := sizeChangeListeners s1 @ [ev]\<rparr>))"

definition addOrientationChangeEvent :: "jsval list \<Rightarrow> state \<Rightarrow> unit result" where
  "addOrientationChangeEvent arguments s =
     (let func0 = arg arguments 0; autoCall0 = arg arguments 1 in
      if loose_eq (js_not (VStr (typeof func0))) (VStr ''function'') then (Inr (), s)
      else
        let autoCall = js_or autoCall0 (VBool False);
            ev = \<lparr>func = func0, args = push_args 0 arguments []\<rparr>
        in case (if strict_eq autoCall (VBool True) then apply_func (func ev) (args ev) s
                 else (Inr (), s)) of
             (Inl e, s1) \<Rightarrow> (Inl e, s1)
           | (Inr u, s1) \<Rightarrow>
               (Inr (), s1\<lparr>orientationChangeListeners := orientationChangeListeners s1 @ [ev]\<rparr>))"

text \<open>
  The loop \<open>$.each(listeners, function (i, eventObj) {...})\<close> of the two dispatch
  methods: the entries in array order, each applied when \<open>typeof eventObj.func ==
  'function'\<close>. Nothing catches an exception: it leaves the loop and the method, and the
  entries after the one that threw are not reached.
\<close>

fun run_events :: "event list \<Rightarrow> state \<Rightarrow> unit result" where
  "run_events [] s = (Inr (), s)"
| "run_events (eventObj # rest) s =
     (case (if loose_eq (VStr (typeof (func eventObj))) (VStr ''function'')
            then apply_func (func eventObj) (args eventObj) s
            else (Inr (), s)) of
        (Inl e, s1) \<Rightarrow> (Inl e, s1)
      | (Inr u, s1) \<Rightarrow> run_events rest s1)"

definition runSizeChangeEvents :: "state \<Rightarrow> unit result" where
  "runSizeChangeEvents s = run_events (sizeChangeListeners s) s"

definition runOrientationChangeEvents :: "state \<Rightarrow> unit result" where
  "runOrientationChangeEvents s = run_events (orientationChangeListeners s) s"

text \<open>
  The \<open>switch (true)\<close> of \<open>updateSize\<close>. \<open>Modernizr.mq\<close> belongs to the host page; it is
  the parameter \<open>mq\<close>, the answer of the current viewport to a media query.
\<close>

definition newSize_of :: "(string \<Rightarrow> bool) \<Rightarrow> state \<Rightarrow> string" where
  "newSize_of mq s =
     (if mq (mq_small s) then ''small''
      else if mq (mq_medium s) then ''medium''
      else ''large'')"

definition updateSize :: "(string \<Rightarrow> bool) \<Rightarrow> state \<Rightarrow> unit result" where
  "updateSize mq s =
     (let newSize = VStr (newSize_of mq s);
          fire = (\<not> loose_eq newSize (size_var s));
          s1 = s\<lparr>size_var := newSize\<rparr>
      in if fire then runSizeChangeEvents s1 else (Inr (), s1))"

text \<open>
  \<open>getSize\<close>: the test reads the property \<open>this.size\<close>, the returned value is the
  closure variable \<open>size\<close>.
\<close>

definition getSize :: "(string \<Rightarrow> bool) \<Rightarrow> state \<Rightarrow> jsval result" where
  "getSize mq s =
     (case (if strict_eq VNull (this_size s) then updateSize mq s else (Inr (), s)) of
        (Inl e, s1) \<Rightarrow> (Inl e, s1)
      | (Inr u, s1) \<Rightarrow> (Inr (size_var s1), s1))"


text \<open>
  jQuery's \<open>$.inArray(elem, array)\<close>: the index of the first element strictly equal to
  \<open>elem\<close>, or -1.
\<close>

fun inArray_from :: "int \<Rightarrow> jsval \<Rightarrow> jsval list \<Rightarrow> int" where
  "inArray_from i elem [] = -1"
| "inArray_from i elem (x # xs) = (if strict_eq x elem then i else inArray_from (i + 1) elem xs)"

definition inArray :: "jsval \<Rightarrow> jsval list \<Rightarrow> int" where
  "inArray elem xs = inArray_from 0 elem xs"

definition sizeIs :: "(string \<Rightarrow> bool) \<Rightarrow> jsval list \<Rightarrow> state \<Rightarrow> bool result" where
  "sizeIs mq arguments s =
     (case getSize mq s of
        (Inl e, s1) \<Rightarrow> (Inl e, s1)
      | (Inr v, s1) \<Rightarrow> (Inr (inArray v arguments \<noteq> -1), s1))"

text \<open>
  \<open>$(window).resize(handler)\<close> and \<open>$(window).on('orientationchange', handler)\<close>: every
  call binds one more handler.
\<close>

definition initSizeListener :: "state \<Rightarrow> state" where
  "initSizeListener s = s\<lparr>resize_handlers := Suc (resize_handlers s)\<rparr>"

definition initOrientationListener :: "state \<Rightarrow> state" where
  "initOrientationListener s =
     s\<lparr>orientationchange_handlers := Suc (orientationchange_handlers s)\<rparr>"

definition init :: "(string \<Rightarrow> bool) \<Rightarrow> state \<Rightarrow> unit result" where
  "init mq s =
     (case updateSize mq s of
        (Inl e, s1) \<Rightarrow> (Inl e, s1)
      | (Inr u, s1) \<Rightarrow> (Inr (), initOrientationListener (initSizeListener s1)))"

text \<open>
  The constructor: \<open>options.mq\<close> is the caller's \<open>mq\<close> object when one is given and the
  default otherwise, the closure variables get their initial values and \<open>init\<close> runs.
  \<open>orientation\<close> is the value of \<open>window.orientation\<close> at that time and \<open>throws\<close> says
  which invocations of the application's callbacks end in an exception.
\<close>

definition default_mq :: "string \<times> string" where
  "default_mq = (''only all and (max-width: 599px)'',
                 ''only all and (min-width: 600px) and (max-width: 960px)'')"

definition fresh ::
  "(string \<times> string) option \<Rightarrow> jsval \<Rightarrow> (invocation \<Rightarrow> bool) \<Rightarrow> state" where
  "fresh options orientation throws =
     (let m = (case options of None \<Rightarrow> default_mq | Some given \<Rightarrow> given) in
      \<lparr>mq_small = fst m, mq_medium = snd m, size_var = VNull, this_size = VUndefined,
       sizeChangeListeners = [], orientationChangeListeners = [],
       resize_handlers = 0, orientationchange_handlers = 0,
       window_orientation = orientation, cb_throws = throws, calls = []\<rparr>)"

definition Device ::
  "(string \<Rightarrow> bool) \<Rightarrow> (string \<times> string) option \<Rightarrow> jsval \<Rightarrow> (invocation \<Rightarrow> bool) \<Rightarrow>
   unit result" where
  "Device mq options orientation throws = init mq (fresh options orientation throws)"

text \<open>
  The two host events. jQuery runs the handlers bound for an event one after the other
  and catches nothing, so an exception in one handler leaves the later ones out. The
  handler bound by \<open>initSizeListener\<close> calls \<open>updateSize\<close> under the new viewport; an
  orientation change sets \<open>window.orientation\<close>, and the handler bound by
  \<open>initOrientationListener\<close> is \<open>runOrientationChangeEvents\<close> itself.
\<close>

fun run_handlers :: "nat \<Rightarrow> (state \<Rightarrow> unit result) \<Rightarrow> state \<Rightarrow> unit result" where
  "run_handlers 0 handler s = (Inr (), s)"
| "run_handlers (Suc n) handler s =
     (case handler s of
        (Inl e, s1) \<Rightarrow> (Inl e, s1)
      | (Inr u, s1) \<Rightarrow> run_handlers n handler s1)"

definition on_resize :: "(string \<Rightarrow> bool) \<Rightarrow> state \<Rightarrow> unit result" where
  "on_resize mq s = run_handlers (resize_handlers s) (updateSize mq) s"

definition on_orientationchange :: "jsval \<Rightarrow> state \<Rightarrow> unit result" where
  "on_orientationchange angle s =
     (let s1 = s\<lparr>window_orientation := angle\<rparr> in
      run_handlers (orientationchange_handlers s1) runOrientationChangeEvents s1)"

section \<open>Calling sequences and what the specification names\<close>

text \<open>A callable value, as the dispatch loops test it.\<close>

definition callable :: "jsval \<Rightarrow> bool" where
  "callable v = (typeof v = ''function'')"

text \<open>
  The invocations a dispatch of the entries \<open>es\<close> is to make while the cached size is
  \<open>sz\<close>: one per entry holding a function, in the order of the entries, each with the
  arguments bound in its entry.
\<close>

definition invocations :: "event list \<Rightarrow> jsval \<Rightarrow> invocation list" where
  "invocations es sz =
     map (\<lambda>e. \<lparr>callee = func e, actuals = args e, size_seen = sz\<rparr>)
       (filter (\<lambda>e. callable (func e)) es)"

text \<open>
  Of a list of invocations, those made before an exception ends the loop: all up to and
  including the first that throws, and the whole list when none does.
\<close>

definition upto_first_throw :: "(invocation \<Rightarrow> bool) \<Rightarrow> invocation list \<Rightarrow> invocation list" where
  "upto_first_throw throws invs =
     takeWhile (\<lambda>i. \<not> throws i) invs @ take 1 (dropWhile (\<lambda>i. \<not> throws i) invs)"

definition dispatch_calls :: "state \<Rightarrow> event list \<Rightarrow> jsval \<Rightarrow> invocation list" where
  "dispatch_calls s es sz = upto_first_throw (cb_throws s) (invocations es sz)"

definition dispatch_outcome :: "state \<Rightarrow> event list \<Rightarrow> jsval \<Rightarrow> error + unit" where
  "dispatch_outcome s es sz =
     (if list_ex (cb_throws s) (invocations es sz) then Inl Thrown else Inr ())"

text \<open>
  A run of \<open>updateSize()\<close> calls, one per viewport of the list. Each is a call of its
  own: an exception ends that call and not the run.
\<close>

fun updateSizes :: "(string \<Rightarrow> bool) list \<Rightarrow> state \<Rightarrow> state" where
  "updateSizes [] s = s"
| "updateSizes (mq # mqs) s = updateSizes mqs (snd (updateSize mq s))"

text \<open>
  A run of registrations through one of the two registration methods: each element is
  the callback, the autoCall flag and the arguments to bind.
\<close>

fun register_all ::
  "(jsval list \<Rightarrow> state \<Rightarrow> unit result) \<Rightarrow> (jsval \<times> jsval \<times> jsval list) list \<Rightarrow>
   state \<Rightarrow> state" where
  "register_all add [] s = s"
| "register_all add ((f, a, bs) # regs) s = register_all add regs (snd (add (f # a # bs) s))"

text \<open>
  One use of the instance: a call of a method of the object the constructor returns, or
  a host event, under the viewport \<open>mq\<close>; the state it leaves, whether it returned or
  threw.
\<close>

datatype operation =
    Init
  | InitSizeListener
  | InitOrientationListener
  | AddSizeChangeEvent "jsval list"
  | AddOrientationChangeEvent "jsval list"
  | RunSizeChangeEvents
  | RunOrientationChangeEvents
  | GetSize
  | SizeIs "jsval list"
  | UpdateSize
  | Resize
  | OrientationChange jsval

fun perform :: "(string \<Rightarrow> bool) \<Rightarrow> operation \<Rightarrow> state \<Rightarrow> state" where
  "perform mq Init s = snd (init mq s)"
| "perform mq InitSizeListener s = initSizeListener s"
| "perform mq InitOrientationListener s = initOrientationListener s"
| "perform mq (AddSizeChangeEvent as) s = snd (addSizeChangeEvent as s)"
| "perform mq (AddOrientationChangeEvent as) s = snd (addOrientationChangeEvent as s)"
| "perform mq RunSizeChangeEvents s = snd (runSizeChangeEvents s)"
| "perform mq RunOrientationChangeEvents s = snd (runOrientationChangeEvents s)"
| "perform mq GetSize s = snd (getSize mq s)"
| "perform mq (SizeIs as) s = snd (sizeIs mq as s)"
| "perform mq UpdateSize s = snd (updateSize mq s)"
| "perform mq Resize s = snd (on_resize mq s)"
| "perform mq (OrientationChange angle) s = snd (on_orientationchange angle s)"

text \<open>A run of uses, each under its own viewport.\<close>

fun perform_all :: "((string \<Rightarrow> bool) \<times> operation) list \<Rightarrow> state \<Rightarrow> state" where
  "perform_all [] s = s"
| "perform_all ((mq, op) # rest) s = perform_all rest (perform mq op s)"


text \<open>
  The classifier as the specification words it: a decision table over the two predicate
  results, small first, then medium, large when neither holds.
\<close>

fun spec_classify :: "bool \<Rightarrow> bool \<Rightarrow> string" where
  "spec_classify True m = ''small''"
| "spec_classify False True = ''medium''"
| "spec_classify False False = ''large''"

text \<open>
  The change detector as the specification words it: of a sequence of computed labels,
  those that differ from the label cached before them, \<open>prev\<close> being the cached value
  at the start.
\<close>

fun spec_transitions :: "jsval \<Rightarrow> string list \<Rightarrow> string list" where
  "spec_transitions prev [] = []"
| "spec_transitions prev (l # ls) =
     (if VStr l = prev then [] else [l]) @ spec_transitions (VStr l) ls"

text \<open>The three size labels \<open>updateSize\<close> can store.\<close>

definition is_label :: "jsval \<Rightarrow> bool" where
  "is_label v = (v = VStr ''small'' \<or> v = VStr ''medium'' \<or> v = VStr ''large'')"

text \<open>
  What a later state of an instance keeps of an earlier one: the media queries, the
  property \<open>size\<close> of the object and the behaviour of the callbacks are the same, the
  listener lists and the record of invocations have only grown, by invocations of
  functions, no handler was unbound, and a label once cached is still a label.
\<close>

definition evolves :: "state \<Rightarrow> state \<Rightarrow> bool" where
  "evolves s s' =
     (mq_small s' = mq_small s \<and> mq_medium s' = mq_medium s \<and>
      this_size s' = this_size s \<and> cb_throws s' = cb_throws s \<and>
      prefix (sizeChangeListeners s) (sizeChangeListeners s') \<and>
      prefix (orientationChangeListeners s) (orientationChangeListeners s') \<and>
      resize_handlers s \<le> resize_handlers s' \<and>
      orientationchange_handlers s \<le> orientationchange_handlers s' \<and>
      prefix (calls s) (calls s') \<and>
      list_all (\<lambda>c. callable (callee c)) (drop (length (calls s)) (calls s')) \<and>
      (is_label (size_var s) \<longrightarrow> is_label (size_var s')))"

text \<open>
  Viewports for the examples: a wide one, where neither default media query matches, and
  one matching exactly the query \<open>q\<close>. Callbacks for the examples: the function 13
  throws whenever it is applied, every other function returns.
\<close>

definition wide :: "string \<Rightarrow> bool" where
  "wide q = False"

definition matching :: "string \<Rightarrow> string \<Rightarrow> bool" where
  "matching q q' = (q' = q)"

definition boom_throws :: "invocation \<Rightarrow> bool" where
  "boom_throws i = (callee i = VFunc 13)"

text \<open>
  States for the examples: the instance \<open>new Device()\<close> returns under a wide viewport
  with \<open>window.orientation\<close> 0; that instance after one size listener and one
  orientation listener were registered, each bound to two arguments; and the closure
  state as the constructor declares it, before \<open>init\<close> has run, holding that size
  listener.
\<close>

definition large_device :: state where
  "large_device =
     \<lparr>mq_small = ''only all and (max-width: 599px)'',
      mq_medium = ''only all and (min-width: 600px) and (max-width: 960px)'',
      size_var = VStr ''large'', this_size = VUndefined,
      sizeChangeListeners = [], orientationChangeListeners = [],
      resize_handlers = 1, orientationchange_handlers = 1,
      window_orientation = VNum 0, cb_throws = boom_throws, calls = []\<rparr>"

definition listener_ab :: event where
  "listener_ab = \<lparr>func = VFunc 1, args = [VStr ''a'', VStr ''b'']\<rparr>"

definition listening_device :: state where
  "listening_device =
     large_device\<lparr>sizeChangeListeners := [listener_ab],
                  orientationChangeListeners := [listener_ab]\<rparr>"

definition unset_listening :: state where
  "unset_listening =
     (fresh None (VNum 0) boom_throws)\<lparr>sizeChangeListeners := [listener_ab]\<rparr>"

definition three_listeners :: "(jsval \<times> jsval \<times> jsval list) list" where
  "three_listeners =
     [(VFunc 2, VBool False, [VNum 7]),
      (VFunc 1, VBool False, [VStr ''a'', VStr ''b'']),
      (VFunc 3, VBool False, [])]"

definition boom_first :: "(jsval \<times> jsval \<times> jsval list) list" where
  "boom_first = [(VFunc 13, VBool False, []), (VFunc 2, VBool False, [VNum 7])]"

definition five_viewports :: "(string \<Rightarrow> bool) list" where
  "five_viewports =
     [matching (fst default_mq), matching (fst default_mq),
      matching (snd default_mq), matching (snd default_mq), wide]"

section \<open>Facts about the operators and the loops\<close>

lemma guard_never: "loose_eq (js_not (VStr (typeof v))) (VStr ''function'') = False"
  by (cases v) (simp_all add: js_not_def bool_to_number_def str_to_number_def digit_of_def Let_def)

lemma callable_iff: "callable v = (\<exists>f. v = VFunc f)"
  by (cases v) (simp_all add: callable_def)

lemma autoCall_test: "strict_eq (js_or a (VBool False)) (VBool True) = (a = VBool True)"
  by (cases a) (auto simp: strict_eq_def js_or_def)

lemma push_args_drop: "push_args i as acc = acc @ drop (2 - i) as"
proof (induction as arbitrary: i acc)
  case Nil
  then show ?case by simp
next
  case (Cons a as)
  show ?case
  proof (cases "i < 2")
    case True
    then have "2 - i = Suc (2 - Suc i)" by arith
    with True Cons show ?thesis by simp
  next
    case False
    with Cons show ?thesis by simp
  qed
qed

lemma upto_first_throw_Nil: "upto_first_throw th [] = []"
  by (simp add: upto_first_throw_def)

lemma upto_first_throw_Cons:
  "upto_first_throw th (x # xs) = x # (if th x then [] else upto_first_throw th xs)"
  by (simp add: upto_first_throw_def)

lemma upto_first_throw_none: "\<forall>i \<in> set xs. \<not> th i \<Longrightarrow> upto_first_throw th xs = xs"
  by (induction xs) (simp_all add: upto_first_throw_Nil upto_first_throw_Cons)

lemma upto_first_throw_prefix: "prefix (upto_first_throw th xs) xs"
  by (induction xs) (simp_all add: upto_first_throw_Nil upto_first_throw_Cons)

lemma set_upto_first_throw: "set (upto_first_throw th xs) \<subseteq> set xs"
  using upto_first_throw_prefix [of th xs] by (rule set_mono_prefix)

lemma invocations_append: "invocations (es @ fs) sz = invocations es sz @ invocations fs sz"
  by (simp add: invocations_def)

lemma dispatch_calls_none:
  "\<forall>i \<in> set (invocations es sz). \<not> cb_throws s i \<Longrightarrow>
   dispatch_calls s es sz = invocations es sz \<and> dispatch_outcome s es sz = Inr ()"
  by (simp add: dispatch_calls_def dispatch_outcome_def upto_first_throw_none list_ex_iff)

lemma dispatch_same_callbacks:
  "cb_throws s' = cb_throws s \<Longrightarrow>
   dispatch_calls s' es sz = dispatch_calls s es sz \<and>
   dispatch_outcome s' es sz = dispatch_outcome s es sz"
  by (simp add: dispatch_calls_def dispatch_outcome_def)

lemma run_events_eq:
  "run_events es s =
     (dispatch_outcome s es (size_var s),
      s\<lparr>calls := calls s @ dispatch_calls s es (size_var s)\<rparr>)"
proof (induction es arbitrary: s)
  case Nil
  then show ?case
    by (simp add: dispatch_outcome_def dispatch_calls_def invocations_def upto_first_throw_Nil)
next
  case (Cons e es)
  show ?case
  proof (cases "typeof (func e) = ''function''")
    case False
    then show ?thesis
      by (simp add: Cons dispatch_outcome_def dispatch_calls_def invocations_def callable_def)
  next
    case True
    let ?i = "\<lparr>callee = func e, actuals = args e, size_seen = size_var s\<rparr>"
    show ?thesis
    proof (cases "cb_throws s ?i")
      case throws: True
      with True show ?thesis
        by (simp add: apply_func_def Let_def dispatch_outcome_def dispatch_calls_def
            invocations_def callable_def upto_first_throw_Cons)
    next
      case returns: False
      with True show ?thesis
        by (simp add: apply_func_def Let_def Cons dispatch_outcome_def dispatch_calls_def
            invocations_def callable_def upto_first_throw_Cons)
    qed
  qed
qed

lemma label_loose_eq:
  "loose_eq (VStr (newSize_of mq s)) v = (v = VStr (newSize_of mq s))"
  by (cases v)
     (auto simp: newSize_of_def str_to_number_def digit_of_def Let_def bool_to_number_def)

lemma updateSize_eq:
  "updateSize mq s =
     (if size_var s = VStr (newSize_of mq s) then Inr ()
      else dispatch_outcome s (sizeChangeListeners s) (VStr (newSize_of mq s)),
      s\<lparr>size_var := VStr (newSize_of mq s),
        calls := calls s @
          (if size_var s = VStr (newSize_of mq s) then []
           else dispatch_calls s (sizeChangeListeners s) (VStr (newSize_of mq s)))\<rparr>)"
  by (simp add: updateSize_def Let_def label_loose_eq runSizeChangeEvents_def run_events_eq
      dispatch_outcome_def dispatch_calls_def)

lemma addSizeChangeEvent_eq:
  "addSizeChangeEvent arguments s =
     (if arg arguments 1 = VBool True
      then (if callable (arg arguments 0)
            then (if cb_throws s \<lparr>callee = arg arguments 0, actuals = drop 2 arguments,
                                  size_seen = size_var s\<rparr>
                  then (Inl Thrown,
                        s\<lparr>calls := calls s @
                            [\<lparr>callee = arg arguments 0, actuals = drop 2 arguments,
                              size_seen = size_var s\<rparr>]\<rparr>)
                  else (Inr (),
                        s\<lparr>calls := calls s @
                            [\<lparr>callee = arg arguments 0, actuals = drop 2 arguments,
                              size_seen = size_var s\<rparr>],
                          sizeChangeListeners := sizeChangeListeners s @
                            [\<lparr>func = arg arguments 0, args = drop 2 arguments\<rparr>]\<rparr>))
            else (Inl TypeError, s))
      else (Inr (), s\<lparr>sizeChangeListeners := sizeChangeListeners s @
                  [\<lparr>func = arg arguments 0, args = drop 2 arguments\<rparr>]\<rparr>))"
  by (simp add: addSizeChangeEvent_def Let_def guard_never autoCall_test push_args_drop
      apply_func_def callable_def)

lemma addOrientationChangeEvent_eq:
  "addOrientationChangeEvent arguments s =
     (if arg arguments 1 = VBool True
      then (if callable (arg arguments 0)
            then (if cb_throws s \<lparr>callee = arg arguments 0, actuals = drop 2 arguments,
                                  size_seen = size_var s\<rparr>
                  then (Inl Thrown,
                        s\<lparr>calls := calls s @
                            [\<lparr>callee = arg arguments 0, actuals = drop 2 arguments,
                              size_seen = size_var s\<rparr>]\<rparr>)
                  else (Inr (),
                        s\<lparr>calls := calls s @
                            [\<lparr>callee = arg arguments 0, actuals = drop 2 arguments,
                              size_seen = size_var s\<rparr>],
                          orientationChangeListeners := orientationChangeListeners s @
                            [\<lparr>func = arg arguments 0, args = drop 2 arguments\<rparr>]\<rparr>))
            else (Inl TypeError, s))
      else (Inr (), s\<lparr>orientationChangeListeners := orientationChangeListeners s @
                  [\<lparr>func = arg arguments 0, args = drop 2 arguments\<rparr>]\<rparr>))"
  by (simp add: addOrientationChangeEvent_def Let_def guard_never autoCall_test push_args_drop
      apply_func_def callable_def)

lemma getSize_eq:
  "getSize mq s =
     (if this_size s = VNull
      then (case updateSize mq s of
              (Inl e, s1) \<Rightarrow> (Inl e, s1)
            | (Inr u, s1) \<Rightarrow> (Inr (VStr (newSize_of mq s)), s1))
      else (Inr (size_var s), s))"
  by (simp add: getSize_def strict_eq_def updateSize_eq split: sum.splits)

lemma inArray_from_mem: "0 \<le> i \<Longrightarrow> (inArray_from i v xs = -1) = (v \<notin> set xs)"
proof (induction xs arbitrary: i)
  case Nil
  then show ?case by simp
next
  case (Cons x xs)
  then show ?case by (auto simp: strict_eq_def)
qed

lemma inArray_mem: "(inArray v xs \<noteq> -1) = (v \<in> set xs)"
  by (simp add: inArray_def inArray_from_mem)

lemma Device_wide: "Device wide None (VNum 0) boom_throws = (Inr (), large_device)"
  by (simp add: Device_def init_def fresh_def default_mq_def updateSize_eq newSize_of_def wide_def
      dispatch_outcome_def dispatch_calls_def invocations_def upto_first_throw_Nil
      initSizeListener_def initOrientationListener_def large_device_def)

lemma updateSizes_eq:
  "updateSizes mqs s =
     s\<lparr>size_var := (if mqs = [] then size_var s else VStr (newSize_of (last mqs) s)),
       calls := calls s @
         concat (map (\<lambda>l. dispatch_calls s (sizeChangeListeners s) (VStr l))
           (spec_transitions (size_var s) (map (\<lambda>mq. newSize_of mq s) mqs)))\<rparr>"
proof (induction mqs arbitrary: s)
  case Nil
  then show ?case by simp
next
  case (Cons mq mqs)
  let ?s1 = "snd (updateSize mq s)"
  have same: "\<And>m. newSize_of m ?s1 = newSize_of m s"
    by (simp add: newSize_of_def updateSize_eq)
  have disp: "\<And>es sz. dispatch_calls ?s1 es sz = dispatch_calls s es sz"
    by (simp add: dispatch_calls_def updateSize_eq)
  show ?case
    by (simp add: Cons same disp del: spec_transitions.simps)
       (auto simp: updateSize_eq newSize_of_def)
qed

lemma invocations_callable_entries:
  "\<forall>r \<in> set regs. callable (fst r) \<Longrightarrow>
   invocations (map (\<lambda>(f, a, bs). \<lparr>func = f, args = bs\<rparr>) regs) sz =
     map (\<lambda>(f, a, bs). \<lparr>callee = f, actuals = bs, size_seen = sz\<rparr>) regs"
  by (induction regs) (auto simp: invocations_def)

lemma run_handlers_preserves:
  "(\<And>t. P t \<Longrightarrow> P (snd (h t))) \<Longrightarrow> P s \<Longrightarrow> P (snd (run_handlers n h s))"
proof (induction n arbitrary: s)
  case 0
  then show ?case by simp
next
  case (Suc n)
  obtain r s1 where hs: "h s = (r, s1)" by (cases "h s") auto
  from Suc.prems(1) [OF Suc.prems(2)] hs have p1: "P s1" by simp
  show ?case
  proof (cases r)
    case (Inl e)
    with hs p1 show ?thesis by simp
  next
    case (Inr u)
    with hs Suc.IH [OF Suc.prems(1) p1] show ?thesis by simp
  qed
qed


lemma evolves_refl: "evolves s s"
  by (simp add: evolves_def)

lemma evolves_trans:
  assumes "evolves s t" and "evolves t u"
  shows "evolves s u"
proof -
  from assms(1) obtain n1 where n1: "calls t = calls s @ n1"
    by (auto simp: evolves_def prefix_def)
  from assms(2) obtain n2 where n2: "calls u = calls t @ n2"
    by (auto simp: evolves_def prefix_def)
  from assms n1 n2 have "list_all (\<lambda>c. callable (callee c)) (n1 @ n2)"
    by (simp add: evolves_def)
  with n1 n2 have new: "prefix (calls s) (calls u) \<and>
      list_all (\<lambda>c. callable (callee c)) (drop (length (calls s)) (calls u))"
    by simp
  from assms have rest: "mq_small u = mq_small s \<and> mq_medium u = mq_medium s \<and>
      this_size u = this_size s \<and> cb_throws u = cb_throws s \<and>
      prefix (sizeChangeListeners s) (sizeChangeListeners u) \<and>
      prefix (orientationChangeListeners s) (orientationChangeListeners u) \<and>
      resize_handlers s \<le> resize_handlers u \<and>
      orientationchange_handlers s \<le> orientationchange_handlers u \<and>
      (is_label (size_var s) \<longrightarrow> is_label (size_var u))"
    by (auto simp: evolves_def)
  from new rest show ?thesis by (simp add: evolves_def)
qed

lemma newSize_is_label: "is_label (VStr (newSize_of mq s))"
  by (simp add: newSize_of_def is_label_def)

lemma dispatch_calls_callable: "list_all (\<lambda>c. callable (callee c)) (dispatch_calls s es sz)"
proof -
  have "set (dispatch_calls s es sz) \<subseteq> set (invocations es sz)"
    by (simp add: dispatch_calls_def set_upto_first_throw)
  then show ?thesis
    by (auto simp: list_all_iff invocations_def)
qed

lemma evolves_updateSize: "evolves s (snd (updateSize mq s))"
  by (simp add: evolves_def updateSize_eq newSize_is_label dispatch_calls_callable)

lemma evolves_run_size: "evolves s (snd (runSizeChangeEvents s))"
  by (simp add: evolves_def runSizeChangeEvents_def run_events_eq dispatch_calls_callable)

lemma evolves_run_orientation: "evolves s (snd (runOrientationChangeEvents s))"
  by (simp add: evolves_def runOrientationChangeEvents_def run_events_eq dispatch_calls_callable)

lemma evolves_add_size: "evolves s (snd (addSizeChangeEvent as s))"
  by (simp add: evolves_def addSizeChangeEvent_eq)

lemma evolves_add_orientation: "evolves s (snd (addOrientationChangeEvent as s))"
  by (simp add: evolves_def addOrientationChangeEvent_eq)

lemma evolves_getSize: "evolves s (snd (getSize mq s))"
proof (cases "this_size s = VNull")
  case True
  obtain r s1 where u: "updateSize mq s = (r, s1)" by (cases "updateSize mq s") auto
  with evolves_updateSize [of s mq] have "evolves s s1" by simp
  with True u show ?thesis by (cases r) (simp_all add: getSize_eq)
next
  case False
  then show ?thesis by (simp add: getSize_eq evolves_refl)
qed

lemma evolves_sizeIs: "evolves s (snd (sizeIs mq as s))"
proof -
  obtain r s1 where g: "getSize mq s = (r, s1)" by (cases "getSize mq s") auto
  with evolves_getSize [of s mq] have "evolves s s1" by simp
  with g show ?thesis by (cases r) (simp_all add: sizeIs_def)
qed

lemma evolves_init: "evolves s (snd (init mq s))"
proof -
  obtain r s1 where u: "updateSize mq s = (r, s1)" by (cases "updateSize mq s") auto
  with evolves_updateSize [of s mq] have e: "evolves s s1" by simp
  have "evolves s1 (initOrientationListener (initSizeListener s1))"
    by (simp add: evolves_def initSizeListener_def initOrientationListener_def)
  with e have "evolves s (initOrientationListener (initSizeListener s1))"
    by (rule evolves_trans)
  with e u show ?thesis by (cases r) (simp_all add: init_def)
qed

lemma evolves_on_resize: "evolves s (snd (on_resize mq s))"
proof -
  have "evolves s (snd (run_handlers (resize_handlers s) (updateSize mq) s))"
  proof (rule run_handlers_preserves [where P = "evolves s"])
    fix t assume "evolves s t"
    then show "evolves s (snd (updateSize mq t))"
      using evolves_updateSize [of t mq] by (rule evolves_trans)
  next
    show "evolves s s" by (rule evolves_refl)
  qed
  then show ?thesis by (simp add: on_resize_def)
qed

lemma evolves_on_orientationchange: "evolves s (snd (on_orientationchange angle s))"
proof -
  let ?s1 = "s\<lparr>window_orientation := angle\<rparr>"
  have first: "evolves s ?s1" by (simp add: evolves_def)
  have "evolves s (snd (run_handlers (orientationchange_handlers ?s1)
      runOrientationChangeEvents ?s1))"
  proof (rule run_handlers_preserves [where P = "evolves s"])
    fix t assume "evolves s t"
    then show "evolves s (snd (runOrientationChangeEvents t))"
      using evolves_run_orientation [of t] by (rule evolves_trans)
  next
    show "evolves s ?s1" by (rule first)
  qed
  then show ?thesis by (simp add: on_orientationchange_def Let_def)
qed

lemma perform_evolves: "evolves s (perform mq op s)"
proof (cases op)
  case Init
  then show ?thesis by (simp add: evolves_init)
next
  case InitSizeListener
  then show ?thesis by (simp add: evolves_def initSizeListener_def)
next
  case InitOrientationListener
  then show ?thesis by (simp add: evolves_def initOrientationListener_def)
next
  case (AddSizeChangeEvent as)
  then show ?thesis by (simp add: evolves_add_size)
next
  case (AddOrientationChangeEvent as)
  then show ?thesis by (simp add: evolves_add_orientation)
next
  case RunSizeChangeEvents
  then show ?thesis by (simp add: evolves_run_size)
next
  case RunOrientationChangeEvents
  then show ?thesis by (simp add: evolves_run_orientation)
next
  case GetSize
  then show ?thesis by (simp add: evolves_getSize)
next
  case (SizeIs as)
  then show ?thesis by (simp add: evolves_sizeIs)
next
  case UpdateSize
  then show ?thesis by (simp add: evolves_updateSize)
next
  case Resize
  then show ?thesis by (simp add: evolves_on_resize)
next
  case (OrientationChange angle)
  then show ?thesis by (simp add: evolves_on_orientationchange)
qed

lemma perform_all_evolves: "evolves s (perform_all ops s)"
proof (induction ops arbitrary: s)
  case Nil
  then show ?case by (simp add: evolves_refl)
next
  case (Cons x ops)
  obtain mq op where x: "x = (mq, op)" by (cases x) auto
  have "evolves s (perform mq op s)" by (rule perform_evolves)
  moreover have "evolves (perform mq op s) (perform_all ops (perform mq op s))"
    by (rule Cons.IH)
  ultimately show ?case using x by (simp add: evolves_trans)
qed









lemma register_all_size:
  assumes "\<forall>r \<in> set regs. callable (fst r)"
    and "\<forall>(f, a, bs) \<in> set regs. a = VBool True \<longrightarrow>
           \<not> cb_throws s \<lparr>callee = f, actuals = bs, size_seen = size_var s\<rparr>"
  shows "register_all addSizeChangeEvent regs s =
     s\<lparr>calls := calls s @
          map (\<lambda>(f, a, bs). \<lparr>callee = f, actuals = bs, size_seen = size_var s\<rparr>)
            (filter (\<lambda>(f, a, bs). a = VBool True) regs),
        sizeChangeListeners := sizeChangeListeners s @
          map (\<lambda>(f, a, bs). \<lparr>func = f, args = bs\<rparr>) regs\<rparr>"
  using assms
proof (induction regs arbitrary: s)
  case Nil
  then show ?case by simp
next
  case (Cons r regs)
  obtain f a bs where r: "r = (f, a, bs)" by (cases r) auto
  from Cons.prems r have cf: "callable f" by simp
  from Cons.prems r have nt: "a = VBool True \<longrightarrow>
      \<not> cb_throws s \<lparr>callee = f, actuals = bs, size_seen = size_var s\<rparr>" by simp
  let ?s1 = "s\<lparr>calls := calls s @
                (if a = VBool True then [\<lparr>callee = f, actuals = bs, size_seen = size_var s\<rparr>]
                 else []),
              sizeChangeListeners := sizeChangeListeners s @ [\<lparr>func = f, args = bs\<rparr>]\<rparr>"
  have step: "snd (addSizeChangeEvent (f # a # bs) s) = ?s1"
    using nt by (simp add: addSizeChangeEvent_eq arg_def cf)
  from Cons.prems have rest: "\<forall>r \<in> set regs. callable (fst r)"
    "\<forall>(f, a, bs) \<in> set regs. a = VBool True \<longrightarrow>
           \<not> cb_throws ?s1 \<lparr>callee = f, actuals = bs, size_seen = size_var ?s1\<rparr>"
    by simp_all
  have "register_all addSizeChangeEvent (r # regs) s =
          register_all addSizeChangeEvent regs ?s1"
    by (simp only: r register_all.simps step)
  also have "\<dots> = ?s1\<lparr>calls := calls ?s1 @
              map (\<lambda>(f, a, bs). \<lparr>callee = f, actuals = bs, size_seen = size_var ?s1\<rparr>)
                (filter (\<lambda>(f, a, bs). a = VBool True) regs),
            sizeChangeListeners := sizeChangeListeners ?s1 @
              map (\<lambda>(f, a, bs). \<lparr>func = f, args = bs\<rparr>) regs\<rparr>"
    by (rule Cons.IH [OF rest])
  finally show ?case
    by (simp add: r)
qed

lemma register_all_orientation:
  assumes "\<forall>r \<in> set regs. callable (fst r)"
    and "\<forall>(f, a, bs) \<in> set regs. a = VBool True \<longrightarrow>
           \<not> cb_throws s \<lparr>callee = f, actuals = bs, size_seen = size_var s\<rparr>"
  shows "register_all addOrientationChangeEvent regs s =
     s\<lparr>calls := calls s @
          map (\<lambda>(f, a, bs). \<lparr>callee = f, actuals = bs, size_seen = size_var s\<rparr>)
            (filter (\<lambda>(f, a, bs). a = VBool True) regs),
        orientationChangeListeners := orientationChangeListeners s @
          map (\<lambda>(f, a, bs). \<lparr>func = f, args = bs\<rparr>) regs\<rparr>"
  using assms
proof (induction regs arbitrary: s)
  case Nil
  then show ?case by simp
next
  case (Cons r regs)
  obtain f a bs where r: "r = (f, a, bs)" by (cases r) auto
  from Cons.prems r have cf: "callable f" by simp
  from Cons.prems r have nt: "a = VBool True \<longrightarrow>
      \<not> cb_throws s \<lparr>callee = f, actuals = bs, size_seen = size_var s\<rparr>" by simp
  let ?s1 = "s\<lparr>calls := calls s @
                (if a = VBool True then [\<lparr>callee = f, actuals = bs, size_seen = size_var s\<rparr>]
                 else []),
              orientationChangeListeners :=
                orientationChangeListeners s @ [\<lparr>func = f, args = bs\<rparr>]\<rparr>"
  have step: "snd (addOrientationChangeEvent (f # a # bs) s) = ?s1"
    using nt by (simp add: addOrientationChangeEvent_eq arg_def cf)
  from Cons.prems have rest: "\<forall>r \<in> set regs. callable (fst r)"
    "\<forall>(f, a, bs) \<in> set regs. a = VBool True \<longrightarrow>
           \<not> cb_throws ?s1 \<lparr>callee = f, actuals = bs, size_seen = size_var ?s1\<rparr>"
    by simp_all
  have "register_all addOrientationChangeEvent (r # regs) s =
          register_all addOrientationChangeEvent regs ?s1"
    by (simp only: r register_all.simps step)
  also have "\<dots> = ?s1\<lparr>calls := calls ?s1 @
              map (\<lambda>(f, a, bs). \<lparr>callee = f, actuals = bs, size_seen = size_var ?s1\<rparr>)
                (filter (\<lambda>(f, a, bs). a = VBool True) regs),
            orientationChangeListeners := orientationChangeListeners ?s1 @
              map (\<lambda>(f, a, bs). \<lparr>func = f, args = bs\<rparr>) regs\<rparr>"
    by (rule Cons.IH [OF rest])
  finally show ?case
    by (simp add: r)
qed


lemma set_spec_transitions: "set (spec_transitions prev ls) \<subseteq> set ls"
  by (induction ls arbitrary: prev) auto

lemma quiet_transitions:
  assumes "\<forall>l \<in> set ls. \<forall>i \<in> set (invocations es (VStr l)). \<not> cb_throws s i"
  shows "concat (map (\<lambda>l. dispatch_calls s es (VStr l)) (spec_transitions prev ls)) =
         concat (map (\<lambda>l. invocations es (VStr l)) (spec_transitions prev ls))"
proof -
  have "map (\<lambda>l. dispatch_calls s es (VStr l)) (spec_transitions prev ls) =
        map (\<lambda>l. invocations es (VStr l)) (spec_transitions prev ls)"
  proof (rule map_cong [OF refl])
    fix l assume "l \<in> set (spec_transitions prev ls)"
    with set_spec_transitions [of prev ls] have "l \<in> set ls" by blast
    with assms have "\<forall>i \<in> set (invocations es (VStr l)). \<not> cb_throws s i" by blast
    then show "dispatch_calls s es (VStr l) = invocations es (VStr l)"
      by (simp add: dispatch_calls_none)
  qed
  then show ?thesis by (rule arg_cong [where f = concat])
qed

text \<open>
  What holds of a value that is not callable, registered without autoCall: the call
  returns normally, and no later use of the instance ever invokes the value.
\<close>

lemma noncallable_registration_returns:
  "addSizeChangeEvent [v, VBool False] s =
     (Inr (), s\<lparr>sizeChangeListeners := sizeChangeListeners s @ [\<lparr>func = v, args = []\<rparr>]\<rparr>) \<and>
   addOrientationChangeEvent [v, VBool False] s =
     (Inr (), s\<lparr>orientationChangeListeners :=
              orientationChangeListeners s @ [\<lparr>func = v, args = []\<rparr>]\<rparr>)"
  by (simp add: addSizeChangeEvent_eq addOrientationChangeEvent_eq arg_def)

lemma noncallable_never_invoked:
  assumes "\<not> callable v" and "\<forall>c \<in> set (calls s). callee c \<noteq> v"
  shows "\<forall>c \<in> set (calls (perform_all ops s)). callee c \<noteq> v"
proof -
  from perform_all_evolves [of s ops] obtain new where
    "calls (perform_all ops s) = calls s @ new" "list_all (\<lambda>c. callable (callee c)) new"
    by (auto simp: evolves_def prefix_def)
  with assms show ?thesis by (auto simp: list_all_iff)
qed

text \<open>
  What holds of a registration with autoCall \<open>true\<close> whose immediate invocation returns:
  the callback is invoked once, the entry is enqueued behind the earlier ones, and a
  dispatch in which no earlier listener throws invokes it again with the same arguments.
\<close>

lemma returning_autoCall_enqueues:
  assumes "callable fn"
    and "\<not> cb_throws s \<lparr>callee = fn, actuals = as, size_seen = size_var s\<rparr>"
  shows "\<exists>s1. addSizeChangeEvent (fn # VBool True # as) s = (Inr (), s1) \<and>
     calls s1 = calls s @ [\<lparr>callee = fn, actuals = as, size_seen = size_var s\<rparr>] \<and>
     sizeChangeListeners s1 = sizeChangeListeners s @ [\<lparr>func = fn, args = as\<rparr>] \<and>
     ((\<forall>i \<in> set (invocations (sizeChangeListeners s) (size_var s)). \<not> cb_throws s i) \<longrightarrow>
        runSizeChangeEvents s1 =
          (Inr (), s1\<lparr>calls := calls s1 @ invocations (sizeChangeListeners s) (size_var s)
                     @ [\<lparr>callee = fn, actuals = as, size_seen = size_var s\<rparr>]\<rparr>))"
proof -
  let ?i = "\<lparr>callee = fn, actuals = as, size_seen = size_var s\<rparr>"
  let ?s1 = "s\<lparr>calls := calls s @ [?i],
               sizeChangeListeners := sizeChangeListeners s @ [\<lparr>func = fn, args = as\<rparr>]\<rparr>"
  have reg: "addSizeChangeEvent (fn # VBool True # as) s = (Inr (), ?s1)"
    using assms by (simp add: addSizeChangeEvent_eq arg_def)
  have one: "invocations [\<lparr>func = fn, args = as\<rparr>] (size_var s) = [?i]"
    using assms(1) by (simp add: invocations_def)
  have run: "runSizeChangeEvents ?s1 =
      (Inr (), ?s1\<lparr>calls := calls ?s1 @ invocations (sizeChangeListeners s) (size_var s) @ [?i]\<rparr>)"
    if quiet: "\<forall>i \<in> set (invocations (sizeChangeListeners s) (size_var s)). \<not> cb_throws s i"
  proof -
    from quiet assms(2) one
    have "\<forall>i \<in> set (invocations (sizeChangeListeners ?s1) (size_var ?s1)). \<not> cb_throws ?s1 i"
      by (simp add: invocations_append)
    from dispatch_calls_none [OF this] show ?thesis
      by (simp add: runSizeChangeEvents_def run_events_eq invocations_append one)
  qed
  from reg run show ?thesis by simp
qed

section \<open>The claims\<close>

text \<open>
  C1. The claim: registering a value that is not callable with autoCall false is a
  silent no-op, nothing is enqueued, nothing is raised and the value is never invoked.
  The guard of the two registration methods is \<open>!typeof func == 'function'\<close>, which
  compares the boolean \<open>false\<close> with a string and never holds (\<open>guard_never\<close>), so the
  entry is enqueued: on the instance built by \<open>new Device()\<close>, registering the number
  42 leaves the entry \<open>{func: 42, args: []}\<close> in the listener list. The call does
  return normally and 42 is never invoked (\<open>noncallable_registration_returns\<close>,
  \<open>noncallable_never_invoked\<close>).
\<close>

theorem noncallable_is_enqueued:
  "Device wide None (VNum 0) boom_throws = (Inr (), large_device) \<and>
   addSizeChangeEvent [VNum 42, VBool False] large_device =
     (Inr (), large_device\<lparr>sizeChangeListeners := [\<lparr>func = VNum 42, args = []\<rparr>]\<rparr>) \<and>
   addOrientationChangeEvent [VNum 42, VBool False] large_device =
     (Inr (), large_device\<lparr>orientationChangeListeners := [\<lparr>func = VNum 42, args = []\<rparr>]\<rparr>)"
  by (simp add: Device_wide addSizeChangeEvent_eq addOrientationChangeEvent_eq arg_def
      large_device_def)

text \<open>
  C2. For every sequence of \<open>updateSize()\<close> calls: each call stores the label it
  computes, whether or not a listener throws, and the size listeners are dispatched
  exactly at the calls whose label differs from the one cached before, an unset cache
  differing from every label. From an unset cache, calls computing small, small, medium,
  medium, large make three dispatches: one seeing small, one seeing medium, one seeing
  large. A dispatch invokes the callable entries in order up to the first that throws;
  when none throws every call returns and each dispatch invokes them all.
\<close>

theorem updateSize_fires_on_change:
  "(\<exists>r s'. updateSize mq s = (r, s') \<and> size_var s' = VStr (newSize_of mq s) \<and>
      calls s' = calls s @
        (if size_var s = VStr (newSize_of mq s) then []
         else dispatch_calls s (sizeChangeListeners s) (VStr (newSize_of mq s))) \<and>
      (size_var s = VNull \<longrightarrow>
         calls s' = calls s @ dispatch_calls s (sizeChangeListeners s) (VStr (newSize_of mq s))) \<and>
      ((\<forall>i \<in> set (invocations (sizeChangeListeners s) (VStr (newSize_of mq s))).
           \<not> cb_throws s i) \<longrightarrow>
         r = Inr () \<and>
         calls s' = calls s @
           (if size_var s = VStr (newSize_of mq s) then []
            else invocations (sizeChangeListeners s) (VStr (newSize_of mq s))))) \<and>
   calls (updateSizes mqs s) = calls s @
     concat (map (\<lambda>l. dispatch_calls s (sizeChangeListeners s) (VStr l))
       (spec_transitions (size_var s) (map (\<lambda>mq. newSize_of mq s) mqs))) \<and>
   (size_var s = VNull \<and>
    map (\<lambda>mq. newSize_of mq s) mqs = [''small'', ''small'', ''medium'', ''medium'', ''large'']
    \<longrightarrow> calls (updateSizes mqs s) =
          calls s @ dispatch_calls s (sizeChangeListeners s) (VStr ''small'')
          @ dispatch_calls s (sizeChangeListeners s) (VStr ''medium'')
          @ dispatch_calls s (sizeChangeListeners s) (VStr ''large'')) \<and>
   ((\<forall>l \<in> set (map (\<lambda>mq. newSize_of mq s) mqs).
       \<forall>i \<in> set (invocations (sizeChangeListeners s) (VStr l)). \<not> cb_throws s i) \<longrightarrow>
      calls (updateSizes mqs s) = calls s @
        concat (map (\<lambda>l. invocations (sizeChangeListeners s) (VStr l))
          (spec_transitions (size_var s) (map (\<lambda>mq. newSize_of mq s) mqs))) \<and>
      (size_var s = VNull \<and>
       map (\<lambda>mq. newSize_of mq s) mqs = [''small'', ''small'', ''medium'', ''medium'', ''large'']
       \<longrightarrow> calls (updateSizes mqs s) =
             calls s @ invocations (sizeChangeListeners s) (VStr ''small'')
             @ invocations (sizeChangeListeners s) (VStr ''medium'')
             @ invocations (sizeChangeListeners s) (VStr ''large'')))"
proof -
  let ?ls = "sizeChangeListeners s"
  let ?labels = "map (\<lambda>mq. newSize_of mq s) mqs"
  have one: "\<exists>r s'. updateSize mq s = (r, s') \<and> size_var s' = VStr (newSize_of mq s) \<and>
      calls s' = calls s @
        (if size_var s = VStr (newSize_of mq s) then []
         else dispatch_calls s ?ls (VStr (newSize_of mq s))) \<and>
      (size_var s = VNull \<longrightarrow>
         calls s' = calls s @ dispatch_calls s ?ls (VStr (newSize_of mq s))) \<and>
      ((\<forall>i \<in> set (invocations ?ls (VStr (newSize_of mq s))). \<not> cb_throws s i) \<longrightarrow>
         r = Inr () \<and>
         calls s' = calls s @
           (if size_var s = VStr (newSize_of mq s) then []
            else invocations ?ls (VStr (newSize_of mq s))))"
    by (simp add: updateSize_eq dispatch_calls_none)
  have run: "calls (updateSizes mqs s) = calls s @
     concat (map (\<lambda>l. dispatch_calls s ?ls (VStr l)) (spec_transitions (size_var s) ?labels))"
    by (simp add: updateSizes_eq)
  have five: "size_var s = VNull \<and>
      ?labels = [''small'', ''small'', ''medium'', ''medium'', ''large''] \<longrightarrow>
      calls (updateSizes mqs s) =
          calls s @ dispatch_calls s ?ls (VStr ''small'')
          @ dispatch_calls s ?ls (VStr ''medium'') @ dispatch_calls s ?ls (VStr ''large'')"
    by (simp add: run)
  have quiet: "calls (updateSizes mqs s) = calls s @
        concat (map (\<lambda>l. invocations ?ls (VStr l)) (spec_transitions (size_var s) ?labels)) \<and>
      (size_var s = VNull \<and>
       ?labels = [''small'', ''small'', ''medium'', ''medium'', ''large'']
       \<longrightarrow> calls (updateSizes mqs s) =
             calls s @ invocations ?ls (VStr ''small'')
             @ invocations ?ls (VStr ''medium'') @ invocations ?ls (VStr ''large''))"
    if q: "\<forall>l \<in> set ?labels. \<forall>i \<in> set (invocations ?ls (VStr l)). \<not> cb_throws s i"
  proof -
    from quiet_transitions [OF q, of "size_var s"] run
    have all: "calls (updateSizes mqs s) = calls s @
        concat (map (\<lambda>l. invocations ?ls (VStr l)) (spec_transitions (size_var s) ?labels))"
      by simp
    then show ?thesis by simp
  qed
  from one run five quiet show ?thesis by blast
qed

theorem updateSize_fires_on_change_witness:
  "size_var unset_listening = VNull \<and>
   map (\<lambda>mq. newSize_of mq unset_listening) five_viewports =
     [''small'', ''small'', ''medium'', ''medium'', ''large''] \<and>
   calls (updateSizes five_viewports unset_listening) =
     [\<lparr>callee = VFunc 1, actuals = [VStr ''a'', VStr ''b''], size_seen = VStr ''small''\<rparr>,
      \<lparr>callee = VFunc 1, actuals = [VStr ''a'', VStr ''b''], size_seen = VStr ''medium''\<rparr>,
      \<lparr>callee = VFunc 1, actuals = [VStr ''a'', VStr ''b''], size_seen = VStr ''large''\<rparr>]"
proof -
  have unset: "size_var unset_listening = VNull"
    by (simp add: unset_listening_def fresh_def Let_def)
  have labels: "map (\<lambda>mq. newSize_of mq unset_listening) five_viewports =
     [''small'', ''small'', ''medium'', ''medium'', ''large'']"
    by (simp add: five_viewports_def newSize_of_def unset_listening_def fresh_def Let_def
        default_mq_def matching_def wide_def)
  have start: "calls unset_listening = []"
    and ls: "sizeChangeListeners unset_listening = [listener_ab]"
    by (simp_all add: unset_listening_def fresh_def Let_def)
  have quiet: "\<forall>l \<in> set (map (\<lambda>mq. newSize_of mq unset_listening) five_viewports).
      \<forall>i \<in> set (invocations (sizeChangeListeners unset_listening) (VStr l)).
        \<not> cb_throws unset_listening i"
    by (simp add: ls invocations_def listener_ab_def unset_listening_def fresh_def Let_def
        boom_throws_def)
  from updateSize_fires_on_change [of wide unset_listening five_viewports] unset labels quiet
  have "calls (updateSizes five_viewports unset_listening) =
       calls unset_listening
       @ invocations (sizeChangeListeners unset_listening) (VStr ''small'')
       @ invocations (sizeChangeListeners unset_listening) (VStr ''medium'')
       @ invocations (sizeChangeListeners unset_listening) (VStr ''large'')"
    by blast
  then show ?thesis
    using unset labels
    by (simp add: start ls invocations_def listener_ab_def callable_def)
qed



text \<open>
  C4. Classification is first match in the order small, medium, large: the label
  \<open>updateSize\<close> computes and stores is the one the decision table of the specification
  gives for the two predicate results; small when the small predicate holds (also when
  both hold), medium when only the medium predicate holds, large when neither does.
\<close>

theorem classification_first_match:
  "newSize_of mq s = spec_classify (mq (mq_small s)) (mq (mq_medium s)) \<and>
   (\<exists>r s'. updateSize mq s = (r, s') \<and>
      size_var s' = VStr (spec_classify (mq (mq_small s)) (mq (mq_medium s)))) \<and>
   (mq (mq_small s) \<longrightarrow> newSize_of mq s = ''small'') \<and>
   (\<not> mq (mq_small s) \<and> mq (mq_medium s) \<longrightarrow> newSize_of mq s = ''medium'') \<and>
   (\<not> mq (mq_small s) \<and> \<not> mq (mq_medium s) \<longrightarrow> newSize_of mq s = ''large'')"
proof -
  have "newSize_of mq s = spec_classify (mq (mq_small s)) (mq (mq_medium s))"
    by (cases "mq (mq_small s)"; cases "mq (mq_medium s)") (simp_all add: newSize_of_def)
  then show ?thesis
    by (auto simp: updateSize_eq)
qed

theorem classification_first_match_witness:
  "(\<lambda>q. True) (mq_small large_device) \<and> (\<lambda>q. True) (mq_medium large_device) \<and>
   newSize_of (\<lambda>q. True) large_device = ''small'' \<and>
   \<not> matching (mq_medium large_device) (mq_small large_device) \<and>
   matching (mq_medium large_device) (mq_medium large_device) \<and>
   newSize_of (matching (mq_medium large_device)) large_device = ''medium'' \<and>
   \<not> wide (mq_small large_device) \<and> \<not> wide (mq_medium large_device) \<and>
   newSize_of wide large_device = ''large''"
proof -
  have m: "\<not> matching (mq_medium large_device) (mq_small large_device)"
    "matching (mq_medium large_device) (mq_medium large_device)"
    by (simp_all add: matching_def large_device_def)
  have w: "\<not> wide (mq_small large_device)" "\<not> wide (mq_medium large_device)"
    by (simp_all add: wide_def)
  from classification_first_match [of "\<lambda>q. True" large_device]
  have a: "newSize_of (\<lambda>q. True) large_device = ''small''" by simp
  from classification_first_match [of "matching (mq_medium large_device)" large_device] m
  have b: "newSize_of (matching (mq_medium large_device)) large_device = ''medium''" by blast
  from classification_first_match [of wide large_device] w
  have c: "newSize_of wide large_device = ''large''" by blast
  from a b c m w show ?thesis by simp
qed

text \<open>
  C5. The claim: \<open>addSizeChangeEvent(fn, true, as...)\<close> invokes \<open>fn(as...)\<close> once at
  registration and also enqueues the entry, so that \<open>fn\<close> is invoked again on the next
  dispatch. The method's comment says the function is called immediately after it was
  added to the listeners; the code calls it first (line 96) and pushes the entry
  afterwards (line 99). When the immediate call throws, the push is never reached: on
  the instance built by \<open>new Device()\<close>, registering the throwing function 13 with
  autoCall \<open>true\<close> invokes it once, leaves the listener list empty, and a later dispatch
  invokes nothing. For a callback whose immediate call returns the claim holds
  (\<open>returning_autoCall_enqueues\<close>).
\<close>

theorem throwing_autoCall_is_not_enqueued:
  "Device wide None (VNum 0) boom_throws = (Inr (), large_device) \<and>
   callable (VFunc 13) \<and>
   addSizeChangeEvent [VFunc 13, VBool True, VStr ''a'', VStr ''b''] large_device =
     (Inl Thrown,
      large_device\<lparr>calls := [\<lparr>callee = VFunc 13, actuals = [VStr ''a'', VStr ''b''],
                                size_seen = VStr ''large''\<rparr>]\<rparr>) \<and>
   sizeChangeListeners
     (snd (addSizeChangeEvent [VFunc 13, VBool True, VStr ''a'', VStr ''b''] large_device)) = [] \<and>
   calls (snd (runSizeChangeEvents
     (snd (addSizeChangeEvent [VFunc 13, VBool True, VStr ''a'', VStr ''b''] large_device)))) =
     [\<lparr>callee = VFunc 13, actuals = [VStr ''a'', VStr ''b''], size_seen = VStr ''large''\<rparr>]"
proof -
  have reg: "addSizeChangeEvent [VFunc 13, VBool True, VStr ''a'', VStr ''b''] large_device =
     (Inl Thrown,
      large_device\<lparr>calls := [\<lparr>callee = VFunc 13, actuals = [VStr ''a'', VStr ''b''],
                                size_seen = VStr ''large''\<rparr>]\<rparr>)"
    by (simp add: addSizeChangeEvent_eq arg_def callable_def large_device_def boom_throws_def)
  have run: "calls (snd (runSizeChangeEvents
      (large_device\<lparr>calls := [\<lparr>callee = VFunc 13, actuals = [VStr ''a'', VStr ''b''],
                                size_seen = VStr ''large''\<rparr>]\<rparr>))) =
     [\<lparr>callee = VFunc 13, actuals = [VStr ''a'', VStr ''b''], size_seen = VStr ''large''\<rparr>]"
    by (simp add: runSizeChangeEvents_def run_events_eq dispatch_calls_def invocations_def
        upto_first_throw_Nil large_device_def)
  have none: "sizeChangeListeners large_device = []" by (simp add: large_device_def)
  from reg run none show ?thesis
    by (simp add: Device_wide callable_def)
qed



text \<open>
  C7. The claim: registering N callable listeners and dispatching invokes exactly those
  N callbacks, in registration order, each with its own bound arguments. Nothing in the
  dispatch loop catches an exception, so a listener that throws ends the dispatch and
  the listeners registered after it are not invoked: with the throwing function 13
  registered before function 2, a dispatch invokes 13 and never 2.
\<close>

theorem dispatch_stops_at_throwing_listener:
  "callable (VFunc 13) \<and> callable (VFunc 2) \<and>
   sizeChangeListeners (register_all addSizeChangeEvent boom_first large_device) =
     [\<lparr>func = VFunc 13, args = []\<rparr>, \<lparr>func = VFunc 2, args = [VNum 7]\<rparr>] \<and>
   fst (runSizeChangeEvents (register_all addSizeChangeEvent boom_first large_device)) =
     Inl Thrown \<and>
   calls (snd (runSizeChangeEvents (register_all addSizeChangeEvent boom_first large_device))) =
     [\<lparr>callee = VFunc 13, actuals = [], size_seen = VStr ''large''\<rparr>] \<and>
   \<lparr>callee = VFunc 2, actuals = [VNum 7], size_seen = VStr ''large''\<rparr> \<notin>
     set (calls (snd (runSizeChangeEvents
       (register_all addSizeChangeEvent boom_first large_device))))"
proof -
  have reg: "register_all addSizeChangeEvent boom_first large_device =
      large_device\<lparr>sizeChangeListeners :=
        [\<lparr>func = VFunc 13, args = []\<rparr>, \<lparr>func = VFunc 2, args = [VNum 7]\<rparr>]\<rparr>"
    by (simp add: boom_first_def addSizeChangeEvent_eq arg_def large_device_def)
  have run: "runSizeChangeEvents (large_device\<lparr>sizeChangeListeners :=
        [\<lparr>func = VFunc 13, args = []\<rparr>, \<lparr>func = VFunc 2, args = [VNum 7]\<rparr>]\<rparr>) =
      (Inl Thrown, large_device\<lparr>sizeChangeListeners :=
        [\<lparr>func = VFunc 13, args = []\<rparr>, \<lparr>func = VFunc 2, args = [VNum 7]\<rparr>],
        calls := [\<lparr>callee = VFunc 13, actuals = [], size_seen = VStr ''large''\<rparr>]\<rparr>)"
    by (simp add: runSizeChangeEvents_def apply_func_def Let_def large_device_def
        boom_throws_def)
  show ?thesis
    by (simp add: reg run callable_def)
qed

text \<open>
  C7, as amended. Registering any number of callable listeners through either method,
  each with its own bound arguments (an immediate invocation, where one is asked for,
  returning normally), appends their entries in registration order. A dispatch then
  invokes the listeners registered before them and then these, in registration order,
  each with exactly its own bound arguments, up to and including the first one that
  throws, and all of them when none throws. No use of the instance ever removes or
  reorders an entry: the lists before are prefixes of the lists after.
\<close>

theorem registration_dispatch_upto_throw:
  "((\<forall>r \<in> set regs. callable (fst r)) \<and>
    (\<forall>(f, a, bs) \<in> set regs. a = VBool True \<longrightarrow>
        \<not> cb_throws s \<lparr>callee = f, actuals = bs, size_seen = size_var s\<rparr>) \<longrightarrow>
      sizeChangeListeners (register_all addSizeChangeEvent regs s) =
        sizeChangeListeners s @ map (\<lambda>(f, a, bs). \<lparr>func = f, args = bs\<rparr>) regs \<and>
      calls (snd (runSizeChangeEvents (register_all addSizeChangeEvent regs s))) =
        calls (register_all addSizeChangeEvent regs s) @
        upto_first_throw (cb_throws s)
          (invocations (sizeChangeListeners s) (size_var s) @
           map (\<lambda>(f, a, bs). \<lparr>callee = f, actuals = bs, size_seen = size_var s\<rparr>) regs) \<and>
      orientationChangeListeners (register_all addOrientationChangeEvent regs s) =
        orientationChangeListeners s @ map (\<lambda>(f, a, bs). \<lparr>func = f, args = bs\<rparr>) regs \<and>
      calls (snd (runOrientationChangeEvents (register_all addOrientationChangeEvent regs s))) =
        calls (register_all addOrientationChangeEvent regs s) @
        upto_first_throw (cb_throws s)
          (invocations (orientationChangeListeners s) (size_var s) @
           map (\<lambda>(f, a, bs). \<lparr>callee = f, actuals = bs, size_seen = size_var s\<rparr>) regs) \<and>
      ((\<forall>i \<in> set (invocations (sizeChangeListeners s) (size_var s) @
            map (\<lambda>(f, a, bs). \<lparr>callee = f, actuals = bs, size_seen = size_var s\<rparr>) regs).
          \<not> cb_throws s i) \<longrightarrow>
         fst (runSizeChangeEvents (register_all addSizeChangeEvent regs s)) = Inr () \<and>
         calls (snd (runSizeChangeEvents (register_all addSizeChangeEvent regs s))) =
           calls (register_all addSizeChangeEvent regs s) @
           invocations (sizeChangeListeners s) (size_var s) @
           map (\<lambda>(f, a, bs). \<lparr>callee = f, actuals = bs, size_seen = size_var s\<rparr>) regs) \<and>
      ((\<forall>i \<in> set (invocations (orientationChangeListeners s) (size_var s) @
            map (\<lambda>(f, a, bs). \<lparr>callee = f, actuals = bs, size_seen = size_var s\<rparr>) regs).
          \<not> cb_throws s i) \<longrightarrow>
         fst (runOrientationChangeEvents (register_all addOrientationChangeEvent regs s)) =
           Inr () \<and>
         calls (snd (runOrientationChangeEvents
             (register_all addOrientationChangeEvent regs s))) =
           calls (register_all addOrientationChangeEvent regs s) @
           invocations (orientationChangeListeners s) (size_var s) @
           map (\<lambda>(f, a, bs). \<lparr>callee = f, actuals = bs, size_seen = size_var s\<rparr>) regs)) \<and>
   (\<forall>mq op. prefix (sizeChangeListeners s) (sizeChangeListeners (perform mq op s)) \<and>
      prefix (orientationChangeListeners s) (orientationChangeListeners (perform mq op s)))"
proof -
  let ?new = "map (\<lambda>(f, a, bs). \<lparr>callee = f, actuals = bs, size_seen = size_var s\<rparr>) regs"
  let ?entries = "map (\<lambda>(f, a, bs). \<lparr>func = f, args = bs\<rparr>) regs"
  have grow: "\<forall>mq op. prefix (sizeChangeListeners s) (sizeChangeListeners (perform mq op s)) \<and>
      prefix (orientationChangeListeners s) (orientationChangeListeners (perform mq op s))"
    using perform_evolves by (simp add: evolves_def)
  have main: "sizeChangeListeners (register_all addSizeChangeEvent regs s) =
        sizeChangeListeners s @ ?entries \<and>
      calls (snd (runSizeChangeEvents (register_all addSizeChangeEvent regs s))) =
        calls (register_all addSizeChangeEvent regs s) @
        upto_first_throw (cb_throws s) (invocations (sizeChangeListeners s) (size_var s) @ ?new) \<and>
      orientationChangeListeners (register_all addOrientationChangeEvent regs s) =
        orientationChangeListeners s @ ?entries \<and>
      calls (snd (runOrientationChangeEvents (register_all addOrientationChangeEvent regs s))) =
        calls (register_all addOrientationChangeEvent regs s) @
        upto_first_throw (cb_throws s)
          (invocations (orientationChangeListeners s) (size_var s) @ ?new) \<and>
      ((\<forall>i \<in> set (invocations (sizeChangeListeners s) (size_var s) @ ?new). \<not> cb_throws s i) \<longrightarrow>
         fst (runSizeChangeEvents (register_all addSizeChangeEvent regs s)) = Inr () \<and>
         calls (snd (runSizeChangeEvents (register_all addSizeChangeEvent regs s))) =
           calls (register_all addSizeChangeEvent regs s) @
           invocations (sizeChangeListeners s) (size_var s) @ ?new) \<and>
      ((\<forall>i \<in> set (invocations (orientationChangeListeners s) (size_var s) @ ?new).
          \<not> cb_throws s i) \<longrightarrow>
         fst (runOrientationChangeEvents (register_all addOrientationChangeEvent regs s)) =
           Inr () \<and>
         calls (snd (runOrientationChangeEvents
             (register_all addOrientationChangeEvent regs s))) =
           calls (register_all addOrientationChangeEvent regs s) @
           invocations (orientationChangeListeners s) (size_var s) @ ?new)"
    if c: "\<forall>r \<in> set regs. callable (fst r)"
      and q: "\<forall>(f, a, bs) \<in> set regs. a = VBool True \<longrightarrow>
        \<not> cb_throws s \<lparr>callee = f, actuals = bs, size_seen = size_var s\<rparr>"
  proof -
    note rs = register_all_size [OF c q]
    note ro = register_all_orientation [OF c q]
    note ent = invocations_callable_entries [OF c]
    have a: "sizeChangeListeners (register_all addSizeChangeEvent regs s) =
        sizeChangeListeners s @ ?entries"
      by (simp add: rs)
    have b: "calls (snd (runSizeChangeEvents (register_all addSizeChangeEvent regs s))) =
        calls (register_all addSizeChangeEvent regs s) @
        upto_first_throw (cb_throws s) (invocations (sizeChangeListeners s) (size_var s) @ ?new)"
      by (simp add: rs runSizeChangeEvents_def run_events_eq dispatch_calls_def
          invocations_append ent)
    have b': "fst (runSizeChangeEvents (register_all addSizeChangeEvent regs s)) =
        (if list_ex (cb_throws s) (invocations (sizeChangeListeners s) (size_var s) @ ?new)
         then Inl Thrown else Inr ())"
      by (simp add: rs runSizeChangeEvents_def run_events_eq dispatch_outcome_def
          invocations_append ent)
    have d: "orientationChangeListeners (register_all addOrientationChangeEvent regs s) =
        orientationChangeListeners s @ ?entries"
      by (simp add: ro)
    have e: "calls (snd (runOrientationChangeEvents
          (register_all addOrientationChangeEvent regs s))) =
        calls (register_all addOrientationChangeEvent regs s) @
        upto_first_throw (cb_throws s)
          (invocations (orientationChangeListeners s) (size_var s) @ ?new)"
      by (simp add: ro runOrientationChangeEvents_def run_events_eq dispatch_calls_def
          invocations_append ent)
    have e': "fst (runOrientationChangeEvents (register_all addOrientationChangeEvent regs s)) =
        (if list_ex (cb_throws s) (invocations (orientationChangeListeners s) (size_var s) @ ?new)
         then Inl Thrown else Inr ())"
      by (simp add: ro runOrientationChangeEvents_def run_events_eq dispatch_outcome_def
          invocations_append ent)
    have f: "(\<forall>i \<in> set (invocations (sizeChangeListeners s) (size_var s) @ ?new).
          \<not> cb_throws s i) \<longrightarrow>
         fst (runSizeChangeEvents (register_all addSizeChangeEvent regs s)) = Inr () \<and>
         calls (snd (runSizeChangeEvents (register_all addSizeChangeEvent regs s))) =
           calls (register_all addSizeChangeEvent regs s) @
           invocations (sizeChangeListeners s) (size_var s) @ ?new"
      using b b' upto_first_throw_none
        [of "invocations (sizeChangeListeners s) (size_var s) @ ?new" "cb_throws s"]
      by (simp add: list_ex_iff)
    have g: "(\<forall>i \<in> set (invocations (orientationChangeListeners s) (size_var s) @ ?new).
          \<not> cb_throws s i) \<longrightarrow>
         fst (runOrientationChangeEvents (register_all addOrientationChangeEvent regs s)) =
           Inr () \<and>
         calls (snd (runOrientationChangeEvents
             (register_all addOrientationChangeEvent regs s))) =
           calls (register_all addOrientationChangeEvent regs s) @
           invocations (orientationChangeListeners s) (size_var s) @ ?new"
      using e e' upto_first_throw_none
        [of "invocations (orientationChangeListeners s) (size_var s) @ ?new" "cb_throws s"]
      by (simp add: list_ex_iff)
    from a b d e f g show ?thesis by blast
  qed
  from main grow show ?thesis by blast
qed

theorem registration_dispatch_upto_throw_witness:
  "callable (VFunc 1) \<and> callable (VFunc 2) \<and> callable (VFunc 3) \<and>
   calls (snd (runSizeChangeEvents (register_all addSizeChangeEvent three_listeners large_device))) =
     [\<lparr>callee = VFunc 2, actuals = [VNum 7], size_seen = VStr ''large''\<rparr>,
      \<lparr>callee = VFunc 1, actuals = [VStr ''a'', VStr ''b''], size_seen = VStr ''large''\<rparr>,
      \<lparr>callee = VFunc 3, actuals = [], size_seen = VStr ''large''\<rparr>] \<and>
   calls (snd (runSizeChangeEvents (register_all addSizeChangeEvent boom_first large_device))) =
     [\<lparr>callee = VFunc 13, actuals = [], size_seen = VStr ''large''\<rparr>] \<and>
   prefix (sizeChangeListeners large_device)
     (sizeChangeListeners (perform wide (AddSizeChangeEvent [VFunc 1, VBool False]) large_device))"
proof -
  have c3: "\<forall>r \<in> set three_listeners. callable (fst r)"
    by (simp add: three_listeners_def callable_def)
  have q3: "\<forall>(f, a, bs) \<in> set three_listeners. a = VBool True \<longrightarrow>
      \<not> cb_throws large_device \<lparr>callee = f, actuals = bs, size_seen = size_var large_device\<rparr>"
    by (simp add: three_listeners_def)
  have n3: "\<forall>i \<in> set (invocations (sizeChangeListeners large_device) (size_var large_device) @
      map (\<lambda>(f, a, bs). \<lparr>callee = f, actuals = bs, size_seen = size_var large_device\<rparr>)
        three_listeners). \<not> cb_throws large_device i"
    by (simp add: three_listeners_def large_device_def invocations_def boom_throws_def)
  have cb: "\<forall>r \<in> set boom_first. callable (fst r)"
    by (simp add: boom_first_def callable_def)
  have qb: "\<forall>(f, a, bs) \<in> set boom_first. a = VBool True \<longrightarrow>
      \<not> cb_throws large_device \<lparr>callee = f, actuals = bs, size_seen = size_var large_device\<rparr>"
    by (simp add: boom_first_def)
  have start3: "calls (register_all addSizeChangeEvent three_listeners large_device) = []"
    unfolding register_all_size [OF c3 q3]
    by (simp add: three_listeners_def large_device_def)
  have startb: "calls (register_all addSizeChangeEvent boom_first large_device) = []"
    unfolding register_all_size [OF cb qb]
    by (simp add: boom_first_def large_device_def)
  from registration_dispatch_upto_throw [of three_listeners large_device] c3 q3 n3
  have a: "calls (snd (runSizeChangeEvents
        (register_all addSizeChangeEvent three_listeners large_device))) =
      calls (register_all addSizeChangeEvent three_listeners large_device) @
      invocations (sizeChangeListeners large_device) (size_var large_device) @
      map (\<lambda>(f, a, bs). \<lparr>callee = f, actuals = bs, size_seen = size_var large_device\<rparr>)
        three_listeners"
    by blast
  from registration_dispatch_upto_throw [of boom_first large_device] cb qb
  have b: "calls (snd (runSizeChangeEvents
        (register_all addSizeChangeEvent boom_first large_device))) =
      calls (register_all addSizeChangeEvent boom_first large_device) @
      upto_first_throw (cb_throws large_device)
        (invocations (sizeChangeListeners large_device) (size_var large_device) @
         map (\<lambda>(f, a, bs). \<lparr>callee = f, actuals = bs, size_seen = size_var large_device\<rparr>)
           boom_first)"
    by blast
  from registration_dispatch_upto_throw [of "[]" large_device]
  have p: "prefix (sizeChangeListeners large_device)
     (sizeChangeListeners (perform wide (AddSizeChangeEvent [VFunc 1, VBool False]) large_device))"
    by blast
  have a': "calls (snd (runSizeChangeEvents
        (register_all addSizeChangeEvent three_listeners large_device))) =
     [\<lparr>callee = VFunc 2, actuals = [VNum 7], size_seen = VStr ''large''\<rparr>,
      \<lparr>callee = VFunc 1, actuals = [VStr ''a'', VStr ''b''], size_seen = VStr ''large''\<rparr>,
      \<lparr>callee = VFunc 3, actuals = [], size_seen = VStr ''large''\<rparr>]"
    by (simp add: a start3) (simp add: three_listeners_def large_device_def invocations_def)
  have b': "calls (snd (runSizeChangeEvents
        (register_all addSizeChangeEvent boom_first large_device))) =
     [\<lparr>callee = VFunc 13, actuals = [], size_seen = VStr ''large''\<rparr>]"
    by (simp add: b startb)
       (simp add: boom_first_def large_device_def invocations_def upto_first_throw_Cons
          boom_throws_def)
  from a' b' p show ?thesis by (simp add: callable_def)
qed

text \<open>
  C8. \<open>sizeIs(labels...)\<close> ends as \<open>getSize()\<close> does, in the same state, and where
  \<open>getSize()\<close> returns a value it returns true exactly when that value is one of the
  given labels, and false for no labels at all; \<open>sizeIs('large', 'medium')\<close> is true when
  \<open>getSize()\<close> returns medium and false when it returns small.
\<close>

theorem sizeIs_membership:
  "(\<exists>r s'. getSize mq s = (r, s') \<and>
      sizeIs mq labels s = (map_sum id (\<lambda>v. v \<in> set labels) r, s') \<and>
      sizeIs mq [] s = (map_sum id (\<lambda>v. False) r, s')) \<and>
   (\<forall>v s'. getSize mq s = (Inr v, s') \<longrightarrow>
      sizeIs mq labels s = (Inr (v \<in> set labels), s') \<and> sizeIs mq [] s = (Inr False, s')) \<and>
   (\<forall>s'. getSize mq s = (Inr (VStr ''medium''), s') \<longrightarrow>
      sizeIs mq [VStr ''large'', VStr ''medium''] s = (Inr True, s')) \<and>
   (\<forall>s'. getSize mq s = (Inr (VStr ''small''), s') \<longrightarrow>
      sizeIs mq [VStr ''large'', VStr ''medium''] s = (Inr False, s'))"
proof -
  obtain r s' where g: "getSize mq s = (r, s')" by (cases "getSize mq s") auto
  have any: "sizeIs mq ls s = (map_sum id (\<lambda>v. v \<in> set ls) r, s')" for ls
    using g by (cases r) (simp_all add: sizeIs_def inArray_mem)
  from any [of "[]"] have none: "sizeIs mq [] s = (map_sum id (\<lambda>v. False) r, s')" by simp
  from g any none show ?thesis by auto
qed

theorem sizeIs_membership_witness:
  "getSize wide (large_device\<lparr>size_var := VStr ''medium''\<rparr>) =
     (Inr (VStr ''medium''), large_device\<lparr>size_var := VStr ''medium''\<rparr>) \<and>
   sizeIs wide [VStr ''large'', VStr ''medium''] (large_device\<lparr>size_var := VStr ''medium''\<rparr>) =
     (Inr True, large_device\<lparr>size_var := VStr ''medium''\<rparr>) \<and>
   getSize wide (large_device\<lparr>size_var := VStr ''small''\<rparr>) =
     (Inr (VStr ''small''), large_device\<lparr>size_var := VStr ''small''\<rparr>) \<and>
   sizeIs wide [VStr ''large'', VStr ''medium''] (large_device\<lparr>size_var := VStr ''small''\<rparr>) =
     (Inr False, large_device\<lparr>size_var := VStr ''small''\<rparr>)"
proof -
  have m: "getSize wide (large_device\<lparr>size_var := VStr ''medium''\<rparr>) =
     (Inr (VStr ''medium''), large_device\<lparr>size_var := VStr ''medium''\<rparr>)"
    by (simp add: getSize_def strict_eq_def large_device_def)
  have sm: "getSize wide (large_device\<lparr>size_var := VStr ''small''\<rparr>) =
     (Inr (VStr ''small''), large_device\<lparr>size_var := VStr ''small''\<rparr>)"
    by (simp add: getSize_def strict_eq_def large_device_def)
  from sizeIs_membership [of wide "large_device\<lparr>size_var := VStr ''medium''\<rparr>"] m
  have a: "sizeIs wide [VStr ''large'', VStr ''medium''] (large_device\<lparr>size_var := VStr ''medium''\<rparr>) =
     (Inr True, large_device\<lparr>size_var := VStr ''medium''\<rparr>)"
    by blast
  from sizeIs_membership [of wide "large_device\<lparr>size_var := VStr ''small''\<rparr>"] sm
  have b: "sizeIs wide [VStr ''large'', VStr ''medium''] (large_device\<lparr>size_var := VStr ''small''\<rparr>) =
     (Inr False, large_device\<lparr>size_var := VStr ''small''\<rparr>)"
    by blast
  from m sm a b show ?thesis by simp
qed

text \<open>
  C9. In both registration methods the immediate invocation happens only when the
  autoCall argument is the boolean \<open>true\<close>: with any other value, truthy ones such as
  the number 1 or a non-empty string included, nothing is invoked at registration and
  the entry is enqueued all the same, as it is when the flag is left out; with \<open>true\<close>
  and a callable \<open>fn\<close> the callback is invoked once, and the entry is enqueued when that
  invocation returns.
\<close>

theorem autoCall_only_boolean_true:
  "(autoCall \<noteq> VBool True \<longrightarrow>
      addSizeChangeEvent (fn # autoCall # as) s =
        (Inr (), s\<lparr>sizeChangeListeners := sizeChangeListeners s @ [\<lparr>func = fn, args = as\<rparr>]\<rparr>) \<and>
      addOrientationChangeEvent (fn # autoCall # as) s =
        (Inr (), s\<lparr>orientationChangeListeners :=
                 orientationChangeListeners s @ [\<lparr>func = fn, args = as\<rparr>]\<rparr>)) \<and>
   addSizeChangeEvent [fn] s =
     (Inr (), s\<lparr>sizeChangeListeners := sizeChangeListeners s @ [\<lparr>func = fn, args = []\<rparr>]\<rparr>) \<and>
   addOrientationChangeEvent [fn] s =
     (Inr (), s\<lparr>orientationChangeListeners :=
              orientationChangeListeners s @ [\<lparr>func = fn, args = []\<rparr>]\<rparr>) \<and>
   (callable fn \<longrightarrow>
      calls (snd (addSizeChangeEvent (fn # VBool True # as) s)) =
        calls s @ [\<lparr>callee = fn, actuals = as, size_seen = size_var s\<rparr>] \<and>
      calls (snd (addOrientationChangeEvent (fn # VBool True # as) s)) =
        calls s @ [\<lparr>callee = fn, actuals = as, size_seen = size_var s\<rparr>] \<and>
      (\<not> cb_throws s \<lparr>callee = fn, actuals = as, size_seen = size_var s\<rparr> \<longrightarrow>
         addSizeChangeEvent (fn # VBool True # as) s =
           (Inr (),
            s\<lparr>calls := calls s @ [\<lparr>callee = fn, actuals = as, size_seen = size_var s\<rparr>],
              sizeChangeListeners := sizeChangeListeners s @ [\<lparr>func = fn, args = as\<rparr>]\<rparr>) \<and>
         addOrientationChangeEvent (fn # VBool True # as) s =
           (Inr (),
            s\<lparr>calls := calls s @ [\<lparr>callee = fn, actuals = as, size_seen = size_var s\<rparr>],
              orientationChangeListeners :=
                orientationChangeListeners s @ [\<lparr>func = fn, args = as\<rparr>]\<rparr>)))"
  by (simp add: addSizeChangeEvent_eq addOrientationChangeEvent_eq arg_def)

theorem autoCall_only_boolean_true_witness:
  "truthy (VNum 1) \<and> truthy (VStr ''yes'') \<and> callable (VFunc 1) \<and>
   addSizeChangeEvent [VFunc 1, VNum 1, VStr ''a''] large_device =
     (Inr (), large_device\<lparr>sizeChangeListeners := [\<lparr>func = VFunc 1, args = [VStr ''a'']\<rparr>]\<rparr>) \<and>
   addOrientationChangeEvent [VFunc 1, VStr ''yes'', VStr ''a''] large_device =
     (Inr (),
      large_device\<lparr>orientationChangeListeners := [\<lparr>func = VFunc 1, args = [VStr ''a'']\<rparr>]\<rparr>) \<and>
   addSizeChangeEvent [VFunc 1, VBool True, VStr ''a''] large_device =
     (Inr (),
      large_device\<lparr>calls := [\<lparr>callee = VFunc 1, actuals = [VStr ''a''],
                                size_seen = VStr ''large''\<rparr>],
                    sizeChangeListeners := [\<lparr>func = VFunc 1, args = [VStr ''a'']\<rparr>]\<rparr>)"
proof -
  have n: "VNum 1 \<noteq> VBool True" "VStr ''yes'' \<noteq> VBool True" by simp_all
  have c: "callable (VFunc 1)" by (simp add: callable_def)
  have e: "sizeChangeListeners large_device = []" "orientationChangeListeners large_device = []"
    "calls large_device = []" "size_var large_device = VStr ''large''"
    by (simp_all add: large_device_def)
  have q: "\<not> cb_throws large_device
      \<lparr>callee = VFunc 1, actuals = [VStr ''a''], size_seen = size_var large_device\<rparr>"
    by (simp add: large_device_def boom_throws_def)
  from autoCall_only_boolean_true [of "VNum 1" "VFunc 1" "[VStr ''a'']" large_device] n(1)
  have a: "addSizeChangeEvent [VFunc 1, VNum 1, VStr ''a''] large_device =
     (Inr (), large_device\<lparr>sizeChangeListeners := [\<lparr>func = VFunc 1, args = [VStr ''a'']\<rparr>]\<rparr>)"
    by (simp add: e)
  from autoCall_only_boolean_true [of "VStr ''yes''" "VFunc 1" "[VStr ''a'']" large_device] n(2)
  have b: "addOrientationChangeEvent [VFunc 1, VStr ''yes'', VStr ''a''] large_device =
     (Inr (),
      large_device\<lparr>orientationChangeListeners := [\<lparr>func = VFunc 1, args = [VStr ''a'']\<rparr>]\<rparr>)"
    by (simp add: e)
  from autoCall_only_boolean_true [of "VBool False" "VFunc 1" "[VStr ''a'']" large_device] c q
  have d: "addSizeChangeEvent [VFunc 1, VBool True, VStr ''a''] large_device =
     (Inr (),
      large_device\<lparr>calls := [\<lparr>callee = VFunc 1, actuals = [VStr ''a''],
                                size_seen = VStr ''large''\<rparr>],
                    sizeChangeListeners := [\<lparr>func = VFunc 1, args = [VStr ''a'']\<rparr>]\<rparr>)"
    by (simp add: e)
  from a b d c show ?thesis by simp
qed

text \<open>
  C10. \<open>updateSize\<close> stores the new label before it dispatches: every invocation made
  during the call, also one that throws, runs while the cached size is already the new
  label, which is the size left after the call and differs from the size cached before
  it.
\<close>

theorem dispatch_sees_new_size:
  "\<exists>r s'. updateSize mq s = (r, s') \<and> size_var s' = VStr (newSize_of mq s) \<and>
     (\<forall>c \<in> set (drop (length (calls s)) (calls s')).
        size_seen c = size_var s' \<and> size_seen c \<noteq> size_var s)"
proof -
  have "\<forall>c \<in> set (dispatch_calls s (sizeChangeListeners s) (VStr (newSize_of mq s))).
      size_seen c = VStr (newSize_of mq s)"
    using set_upto_first_throw
      [of "cb_throws s" "invocations (sizeChangeListeners s) (VStr (newSize_of mq s))"]
    by (auto simp: dispatch_calls_def invocations_def)
  then show ?thesis
    by (auto simp: updateSize_eq)
qed

theorem dispatch_sees_new_size_witness:
  "\<exists>r s'. updateSize (matching (fst default_mq)) listening_device = (r, s') \<and>
     size_var listening_device = VStr ''large'' \<and> size_var s' = VStr ''small'' \<and>
     calls s' =
       [\<lparr>callee = VFunc 1, actuals = [VStr ''a'', VStr ''b''], size_seen = VStr ''small''\<rparr>] \<and>
     \<lparr>callee = VFunc 1, actuals = [VStr ''a'', VStr ''b''], size_seen = VStr ''small''\<rparr>
       \<in> set (drop (length (calls listening_device)) (calls s')) \<and>
     size_seen \<lparr>callee = VFunc 1, actuals = [VStr ''a'', VStr ''b''], size_seen = VStr ''small''\<rparr>
       = size_var s'"
proof -
  from dispatch_sees_new_size [of "matching (fst default_mq)" listening_device]
  obtain r s' where
    u: "updateSize (matching (fst default_mq)) listening_device = (r, s')" and
    sz: "size_var s' = VStr (newSize_of (matching (fst default_mq)) listening_device)" and
    seen: "\<forall>c \<in> set (drop (length (calls listening_device)) (calls s')).
        size_seen c = size_var s' \<and> size_seen c \<noteq> size_var listening_device"
    by blast
  have lab: "newSize_of (matching (fst default_mq)) listening_device = ''small''"
    by (simp add: newSize_of_def matching_def default_mq_def listening_device_def
        large_device_def)
  have start: "size_var listening_device = VStr ''large''" "calls listening_device = []"
    "sizeChangeListeners listening_device = [listener_ab]"
    "cb_throws listening_device = boom_throws"
    by (simp_all add: listening_device_def large_device_def)
  have "snd (updateSize (matching (fst default_mq)) listening_device) =
      listening_device\<lparr>size_var := VStr ''small'',
        calls := [\<lparr>callee = VFunc 1, actuals = [VStr ''a'', VStr ''b''],
                   size_seen = VStr ''small''\<rparr>]\<rparr>"
    by (simp add: updateSize_eq lab start dispatch_calls_def invocations_def listener_ab_def
        callable_def upto_first_throw_Cons upto_first_throw_Nil boom_throws_def)
  with u have cs: "calls s' =
       [\<lparr>callee = VFunc 1, actuals = [VStr ''a'', VStr ''b''], size_seen = VStr ''small''\<rparr>]"
    by auto
  have mem: "\<lparr>callee = VFunc 1, actuals = [VStr ''a'', VStr ''b''], size_seen = VStr ''small''\<rparr>
       \<in> set (drop (length (calls listening_device)) (calls s'))"
    by (simp add: cs start)
  from seen mem have "size_seen \<lparr>callee = VFunc 1, actuals = [VStr ''a'', VStr ''b''],
      size_seen = VStr ''small''\<rparr> = size_var s'"
    by blast
  with u sz lab start cs mem show ?thesis by simp
qed

end
